theory Spec2Isabelle
  imports Complex_Main
begin

section \<open>Text: Python strings as lists of code points\<close>

text \<open>
  A Python \<open>str\<close> is a sequence of Unicode code points, and \<open>len\<close> counts code points,
  so a line is a list of integers (code points).  The character classes below are exact on
  ASCII and on the white space of \<open>str.isspace\<close> (which is also what \<open>\s\<close> matches in a
  \<open>str\<close> pattern).  Case, digit and word classification of the other code points above
  127 lives in the interpreter's Unicode tables, not in this repository: here those code
  points are caseless and neither digits nor word characters.  The general theorems below
  use the classes only through facts about single ASCII characters (the space, the newline,
  letters, digits, the bullet glyphs); the evaluated inputs are ASCII.
\<close>

type_synonym ustring = "int list"

definition str :: "string \<Rightarrow> ustring" where
  "str s = map of_char s"

definition isspace :: "int \<Rightarrow> bool" where
  "isspace c \<longleftrightarrow> (9 \<le> c \<and> c \<le> 13) \<or> (28 \<le> c \<and> c \<le> 32) \<or> c = 133 \<or> c = 160
     \<or> c = 5760 \<or> (8192 \<le> c \<and> c \<le> 8202) \<or> c = 8232 \<or> c = 8233 \<or> c = 8239
     \<or> c = 8287 \<or> c = 12288"

definition is_AZ :: "int \<Rightarrow> bool" where
  "is_AZ c \<longleftrightarrow> 65 \<le> c \<and> c \<le> 90"

definition is_az :: "int \<Rightarrow> bool" where
  "is_az c \<longleftrightarrow> 97 \<le> c \<and> c \<le> 122"

definition is_digit :: "int \<Rightarrow> bool" where
  "is_digit c \<longleftrightarrow> 48 \<le> c \<and> c \<le> 57"

definition is_word :: "int \<Rightarrow> bool" where
  \<comment> \<open>\<open>\w\<close>\<close>
  "is_word c \<longleftrightarrow> is_AZ c \<or> is_az c \<or> is_digit c \<or> c = 95"

definition lower_char :: "int \<Rightarrow> int" where
  "lower_char c = (if is_AZ c then c + 32 else c)"

definition lower :: "ustring \<Rightarrow> ustring" where
  \<comment> \<open>\<open>str.lower\<close>\<close>
  "lower s = map lower_char s"

definition isupper :: "ustring \<Rightarrow> bool" where
  \<comment> \<open>\<open>str.isupper\<close>: at least one cased character, and no lower-case one\<close>
  "isupper s \<longleftrightarrow> (\<exists>c \<in> set s. is_AZ c) \<and> (\<forall>c \<in> set s. \<not> is_az c)"

definition islower :: "ustring \<Rightarrow> bool" where
  \<comment> \<open>\<open>str.islower\<close>: at least one cased character, and no upper-case one\<close>
  "islower s \<longleftrightarrow> (\<exists>c \<in> set s. is_az c) \<and> (\<forall>c \<in> set s. \<not> is_AZ c)"

definition lstrip_by :: "(int \<Rightarrow> bool) \<Rightarrow> ustring \<Rightarrow> ustring" where
  "lstrip_by p s = dropWhile p s"

definition rstrip_by :: "(int \<Rightarrow> bool) \<Rightarrow> ustring \<Rightarrow> ustring" where
  "rstrip_by p s = rev (dropWhile p (rev s))"

definition rstrip :: "ustring \<Rightarrow> ustring" where
  \<comment> \<open>\<open>str.rstrip()\<close>\<close>
  "rstrip s = rstrip_by isspace s"

definition strip :: "ustring \<Rightarrow> ustring" where
  \<comment> \<open>\<open>str.strip()\<close>\<close>
  "strip s = rstrip_by isspace (lstrip_by isspace s)"

definition strip_chars :: "ustring \<Rightarrow> ustring \<Rightarrow> ustring" where
  \<comment> \<open>\<open>s.strip(chars)\<close>\<close>
  "strip_chars cs s = rstrip_by (\<lambda>c. c \<in> set cs) (lstrip_by (\<lambda>c. c \<in> set cs) s)"

definition endswith :: "ustring \<Rightarrow> ustring \<Rightarrow> bool" where
  "endswith s suf \<longleftrightarrow> length suf \<le> length s \<and> drop (length s - length suf) s = suf"

definition endswith_any :: "ustring \<Rightarrow> ustring list \<Rightarrow> bool" where
  \<comment> \<open>\<open>s.endswith((a, b, ...))\<close>\<close>
  "endswith_any s sufs \<longleftrightarrow> (\<exists>suf \<in> set sufs. endswith s suf)"

definition startswith :: "ustring \<Rightarrow> ustring \<Rightarrow> bool" where
  "startswith s pre \<longleftrightarrow> take (length pre) s = pre"

function re_split_ws :: "ustring \<Rightarrow> ustring list" where
  \<comment> \<open>\<open>re.split(r'\s+', s)\<close>: empty pieces at the ends are kept\<close>
  "re_split_ws s =
     (let tok = takeWhile (\<lambda>c. \<not> isspace c) s;
          rest = dropWhile (\<lambda>c. \<not> isspace c) s
      in if rest = [] then [tok] else tok # re_split_ws (dropWhile isspace rest))"
  by pat_completeness auto
termination
proof (relation "measure length")
  fix s tok rest
  assume r: "rest = dropWhile (\<lambda>c. \<not> isspace c) s" and ne: "rest \<noteq> []"
  have "length (dropWhile isspace rest) < length rest"
  proof (cases rest)
    case Nil
    with ne show ?thesis by simp
  next
    case (Cons a as)
    with r have "isspace a"
      by (metis hd_dropWhile list.sel(1) ne)
    then have "length (dropWhile isspace rest) \<le> length as"
      using Cons by (simp add: length_dropWhile_le)
    with Cons show ?thesis by simp
  qed
  moreover have "length rest \<le> length s"
    using r by (simp add: length_dropWhile_le)
  ultimately show "(dropWhile isspace rest, s) \<in> measure length" by simp
qed simp

declare re_split_ws.simps [simp del]

fun join :: "ustring \<Rightarrow> ustring list \<Rightarrow> ustring" where
  \<comment> \<open>\<open>sep.join(xs)\<close>\<close>
  "join sep [] = []"
| "join sep [x] = x"
| "join sep (x # y # ys) = x @ sep @ join sep (y # ys)"

definition dollar :: "(ustring \<Rightarrow> bool) \<Rightarrow> ustring \<Rightarrow> bool" where
  \<comment> \<open>a pattern body followed by \<open>$\<close>: the body reaches the end of the string, or stops
      just before a final newline\<close>
  "dollar body s \<longleftrightarrow> body s \<or> (s \<noteq> [] \<and> last s = 10 \<and> body (butlast s))"

section \<open>Line classifier\<close>

datatype py_error = IndexError | ZeroDivisionError

definition SMALL_WORDS :: "ustring list" where
  "SMALL_WORDS = map str [''and'', ''for'', ''of'', ''to'', ''in'', ''with'', ''on'', ''the'',
     ''a'', ''an'', ''&'']"

definition SENTENCE_END :: "ustring list" where
  \<comment> \<open>the tuple \<open>('.', '!', '?', ':', ';', ',')\<close>\<close>
  "SENTENCE_END = map str [''.'', ''!'', ''?'', '':'', '';'', '','']"

definition cap_token :: "ustring \<Rightarrow> bool" where
  \<comment> \<open>\<open>re.match(r'[A-Z][\w&\-/]+$', w)\<close>\<close>
  "cap_token w \<longleftrightarrow>
     dollar (\<lambda>u. case u of [] \<Rightarrow> False
                 | c # cs \<Rightarrow> is_AZ c \<and> cs \<noteq> [] \<and> (\<forall>d \<in> set cs. is_word d \<or> d = 38 \<or> d = 45 \<or> d = 47)) w"

definition titleish_word :: "ustring \<Rightarrow> bool" where
  \<comment> \<open>the condition of line 50\<close>
  "titleish_word w \<longleftrightarrow>
     isupper w \<or> (isupper (take 1 w) \<and> islower (drop 1 w)) \<or> cap_token w"

definition small_word :: "ustring \<Rightarrow> bool" where
  \<comment> \<open>\<open>w.lower().strip(".,:;()[]") in SMALL_WORDS\<close>\<close>
  "small_word w \<longleftrightarrow> strip_chars (str ''.,:;()[]'') (lower w) \<in> set SMALL_WORDS"

fun count_words :: "ustring list \<Rightarrow> nat \<times> nat \<Rightarrow> nat \<times> nat" where
  \<comment> \<open>the loop of lines 45-51 over \<open>(titleish, sig)\<close>\<close>
  "count_words [] (titleish, sig) = (titleish, sig)"
| "count_words (w # ws) (titleish, sig) =
     (if small_word w then count_words ws (titleish, sig)
      else count_words ws (if titleish_word w then titleish + 1 else titleish, sig + 1))"

definition ratio_ge_06 :: "nat \<Rightarrow> nat \<Rightarrow> py_error + bool" where
  \<comment> \<open>\<open>(titleish / sig) >= 0.6\<close>: true division raises on a zero divisor.  With both
      counts at most 10 the quotient is either the double \<open>0.6\<close> itself (3/5, 6/10) or at
      least 1/90 away from it, so the float comparison is the rational one.\<close>
  "ratio_ge_06 titleish sig =
     (if sig = 0 then Inl ZeroDivisionError else Inr (6 * sig \<le> 10 * titleish))"

definition looks_like_project_title_chk :: "ustring \<Rightarrow> py_error + bool" where
  "looks_like_project_title_chk text =
     (let t = strip text in
      if length t < 2 \<or> length t > 120 then Inr False
      else if endswith_any t SENTENCE_END then Inr False
      else let words = filter (\<lambda>w. w \<noteq> []) (re_split_ws t) in
        if \<not> (1 \<le> length words \<and> length words \<le> 10) then Inr False
        else case count_words words (0, 0) of
          (titleish, sig) \<Rightarrow> if sig = 0 then Inr False else ratio_ge_06 titleish sig)"

definition looks_like_project_title :: "ustring \<Rightarrow> bool" where
  \<comment> \<open>the truth value of the result, as every caller uses it\<close>
  "looks_like_project_title text =
     (case looks_like_project_title_chk text of Inr b \<Rightarrow> b | Inl e \<Rightarrow> False)"

definition word_count :: "ustring \<Rightarrow> nat" where
  "word_count text = length (filter (\<lambda>w. w \<noteq> []) (re_split_ws (strip text)))"

definition word_bnd :: "ustring \<Rightarrow> nat \<Rightarrow> bool" where
  \<comment> \<open>\<open>\b\<close> at position \<open>i\<close>: exactly one of the characters before and after is a word
      character\<close>
  "word_bnd s i \<longleftrightarrow>
     ((0 < i \<and> i \<le> length s \<and> is_word (s ! (i - 1))) \<noteq> (i < length s \<and> is_word (s ! i)))"

definition no_newline :: "ustring \<Rightarrow> bool" where
  \<comment> \<open>what \<open>.*\<close> can run over\<close>
  "no_newline u \<longleftrightarrow> 10 \<notin> set u"

definition is_bullet_glyph :: "int \<Rightarrow> bool" where
  \<comment> \<open>the class of \<open>BULLET_RE\<close>: U+2022, hyphen, U+2013, U+2014, asterisk\<close>
  "is_bullet_glyph c \<longleftrightarrow> c = 8226 \<or> c = 45 \<or> c = 8211 \<or> c = 8212 \<or> c = 42"

definition BULLET_RE :: "ustring \<Rightarrow> bool" where
  "BULLET_RE s \<longleftrightarrow> (case s of c # d # _ \<Rightarrow> is_bullet_glyph c \<and> isspace d | _ \<Rightarrow> False)"

definition NUM_BULLET_RE :: "ustring \<Rightarrow> bool" where
  \<comment> \<open>an optional \<open>(\<close>, digits, one of \<open>. ) ]\<close>, white space\<close>
  "NUM_BULLET_RE s \<longleftrightarrow>
     (let s1 = (case s of c # cs \<Rightarrow> if c = 40 then cs else s | [] \<Rightarrow> s);
          ds = takeWhile is_digit s1
      in ds \<noteq> [] \<and> (case dropWhile is_digit s1 of
            c # d # _ \<Rightarrow> (c = 46 \<or> c = 41 \<or> c = 93) \<and> isspace d
          | _ \<Rightarrow> False))"

definition is_bullet :: "ustring \<Rightarrow> bool" where
  "is_bullet text \<longleftrightarrow> BULLET_RE text \<or> NUM_BULLET_RE text"

definition header_match :: "ustring list \<Rightarrow> ustring \<Rightarrow> bool" where
  \<comment> \<open>\<open>^\s*(kw1|kw2|...)\b.*$\<close> with \<open>re.I\<close>, by \<open>match\<close>\<close>
  "header_match kws text \<longleftrightarrow>
     (let s = dropWhile isspace text
      in \<exists>kw \<in> set kws.
           length kw \<le> length s \<and> lower (take (length kw) s) = kw \<and> word_bnd s (length kw)
           \<and> dollar no_newline (drop (length kw) s))"

definition EXPERIENCE_HEADERS :: "ustring \<Rightarrow> bool" where
  "EXPERIENCE_HEADERS =
     header_match (map str [''experience'', ''work experience'', ''professional experience''])"

definition PROJECTS_HEADERS :: "ustring \<Rightarrow> bool" where
  "PROJECTS_HEADERS =
     header_match (map str [''projects'', ''project experience'', ''personal projects''])"

definition OTHER_HEADERS :: "ustring \<Rightarrow> bool" where
  \<comment> \<open>each optional \<open>s\<close> is written out as two alternatives\<close>
  "OTHER_HEADERS =
     header_match (map str [''education'', ''skills'', ''certifications'', ''certification'',
       ''awards'', ''award'', ''publications'', ''publication'', ''summary'', ''contact'',
       ''achievements'', ''achievement''])"

definition MONTHS :: "ustring list" where
  "MONTHS = map str [''Jan'', ''January'', ''Feb'', ''February'', ''Mar'', ''March'', ''Apr'',
     ''April'', ''May'', ''Jun'', ''June'', ''Jul'', ''July'', ''Aug'', ''August'', ''Sep'',
     ''Sept'', ''September'', ''Oct'', ''October'', ''Nov'', ''November'', ''Dec'',
     ''December'']"

definition year_at :: "ustring \<Rightarrow> nat \<Rightarrow> bool" where
  \<comment> \<open>\<open>(19|20)\d{2}\<close> at position \<open>j\<close>\<close>
  "year_at s j \<longleftrightarrow>
     j + 4 \<le> length s \<and> (take 2 (drop j s) = str ''19'' \<or> take 2 (drop j s) = str ''20'')
     \<and> is_digit (s ! (j + 2)) \<and> is_digit (s ! (j + 3))"

definition DATE_RE :: "ustring \<Rightarrow> bool" where
  \<comment> \<open>\<open>search\<close>: a month at some \<open>i\<close>, a year at some later \<open>j\<close>, no newline between\<close>
  "DATE_RE s \<longleftrightarrow>
     (\<exists>i \<in> set [0..<Suc (length s)]. \<exists>m \<in> set MONTHS.
        startswith (drop i s) m \<and> word_bnd s i \<and> word_bnd s (i + length m)
        \<and> (\<exists>j \<in> set [i + length m..<Suc (length s)].
              no_newline (take (j - (i + length m)) (drop (i + length m) s))
              \<and> word_bnd s j \<and> year_at s j \<and> word_bnd s (j + 4)))"

fun RANGE_RE :: "ustring \<Rightarrow> bool" where
  \<comment> \<open>\<open>search\<close> for \<open>\s-\s\<close>\<close>
  "RANGE_RE (a # b # c # rest) \<longleftrightarrow>
     (isspace a \<and> b = 45 \<and> isspace c) \<or> RANGE_RE (b # c # rest)"
| "RANGE_RE _ \<longleftrightarrow> False"

definition ROLES :: "ustring list" where
  "ROLES = map str [''engineer'', ''developer'', ''scientist'', ''analyst'', ''manager'',
     ''consultant'', ''architect'', ''administrator'']"

definition ROLE_RE :: "ustring \<Rightarrow> bool" where
  "ROLE_RE s \<longleftrightarrow>
     (\<exists>i \<in> set [0..<Suc (length s)]. \<exists>kw \<in> set ROLES.
        i + length kw \<le> length s \<and> lower (take (length kw) (drop i s)) = kw
        \<and> word_bnd s i \<and> word_bnd s (i + length kw))"

definition LOCATION_RE :: "ustring \<Rightarrow> bool" where
  \<comment> \<open>\<open>search\<close> for \<open>,\s*[A-Z]{2}(?:\b|,|\s)\<close>\<close>
  "LOCATION_RE s \<longleftrightarrow>
     (\<exists>i \<in> set [0..<length s]. s ! i = 44 \<and>
        (let r = dropWhile isspace (drop (Suc i) s)
         in 2 \<le> length r \<and> is_AZ (r ! 0) \<and> is_AZ (r ! 1)
            \<and> (word_bnd r 2 \<or> (2 < length r \<and> (r ! 2 = 44 \<or> isspace (r ! 2))))))"

definition ALLCAPS_RE :: "ustring \<Rightarrow> bool" where
  \<comment> \<open>\<open>match\<close> of \<open>^[A-Z][A-Z &\-\.,/()]+$\<close>\<close>
  "ALLCAPS_RE s \<longleftrightarrow>
     dollar (\<lambda>u. case u of [] \<Rightarrow> False
                 | c # cs \<Rightarrow> is_AZ c \<and> cs \<noteq> []
                     \<and> (\<forall>d \<in> set cs. is_AZ d \<or> d \<in> set (str '' &-.,/()''))) s"

definition looks_like_job_header :: "ustring \<Rightarrow> bool" where
  "looks_like_job_header text \<longleftrightarrow>
     DATE_RE text \<or> RANGE_RE text \<or> ROLE_RE text \<or> LOCATION_RE text \<or> ALLCAPS_RE text"

section \<open>Trailing-title splitter\<close>

fun scan_starts :: "ustring list \<Rightarrow> nat list \<Rightarrow> (ustring \<times> ustring) option" where
  \<comment> \<open>the \<open>for start in range(...)\<close> loop: the first start that qualifies returns\<close>
  "scan_starts tokens [] = None"
| "scan_starts tokens (start # starts) =
     (let candidate = join (str '' '') (drop start tokens);
          prefix = rstrip (join (str '' '') (take start tokens))
      in if prefix \<noteq> [] \<and> looks_like_project_title candidate then Some (prefix, candidate)
         else scan_starts tokens starts)"

definition split_trailing_title_if_any :: "ustring \<Rightarrow> ustring \<times> ustring option" where
  \<comment> \<open>\<open>max(0, len(tokens) - 10)\<close> is the truncating subtraction of \<open>nat\<close>; \<open>len(tokens)\<close>
      is at least 1, so \<open>len(tokens) - 1\<close> is not negative\<close>
  "split_trailing_title_if_any text =
     (let tokens = re_split_ws (strip text)
      in case scan_starts tokens [length tokens - 10..<length tokens - 1] of
           Some (prefix, candidate) \<Rightarrow> (prefix, Some candidate)
         | None \<Rightarrow> (text, None))"

definition truthy :: "ustring option \<Rightarrow> bool" where
  \<comment> \<open>\<open>if maybe_title:\<close> is false on \<open>None\<close> and on the empty string\<close>
  "truthy m \<longleftrightarrow> (case m of None \<Rightarrow> False | Some t \<Rightarrow> t \<noteq> [])"

definition with_title :: "ustring \<times> ustring option \<Rightarrow> ustring list" where
  \<comment> \<open>\<open>append(main)\<close>, then \<open>append(maybe_title)\<close> when there is one\<close>
  "with_title r = (case r of (main, maybe_title) \<Rightarrow>
     main # (case maybe_title of Some t \<Rightarrow> if t \<noteq> [] then [t] else [] | None \<Rightarrow> []))"

section \<open>Section-aware merge pass\<close>

datatype "section" = NoSection | Exp | Proj

definition upd_last :: "(ustring \<Rightarrow> ustring) \<Rightarrow> ustring list \<Rightarrow> py_error + ustring list" where
  \<comment> \<open>\<open>merged[-1] = f(merged[-1])\<close>; indexing an empty list raises\<close>
  "upd_last f merged =
     (if merged = [] then Inl IndexError else Inr (butlast merged @ [f (last merged)]))"

definition merge_line ::
  "section \<times> ustring list \<Rightarrow> ustring \<Rightarrow> py_error + (section \<times> ustring list)" where
  \<comment> \<open>one iteration of the loop of lines 82-139\<close>
  "merge_line st raw = (case st of (section, merged) \<Rightarrow>
     if raw = [] then Inr (section, merged)
     else let text = strip raw in
     if text = [] then Inr (section, merged)
     else if EXPERIENCE_HEADERS text then Inr (Exp, merged @ [text])
     else if PROJECTS_HEADERS text then Inr (Proj, merged @ [text])
     else if OTHER_HEADERS text then Inr (NoSection, merged @ [text])
     else if is_bullet text then
       (if section = Proj
        then Inr (section, merged @ with_title (split_trailing_title_if_any text))
        else Inr (section, merged @ [text]))
     else if section = Proj then
       (let lst = (if merged \<noteq> [] then last merged else [])
        in if merged = [] \<or> PROJECTS_HEADERS lst then Inr (section, merged @ [text])
           else if is_bullet lst then
             (case split_trailing_title_if_any text of (prefix, title) \<Rightarrow>
                if truthy title
                then (case upd_last (\<lambda>l. rstrip l @ (if prefix \<noteq> [] then str '' '' @ prefix else [])) merged of
                        Inl e \<Rightarrow> Inl e
                      | Inr m \<Rightarrow> Inr (section, m @ [the title]))
                else map_sum id (Pair section) (upd_last (\<lambda>l. rstrip l @ str '' '' @ text) merged))
           else if looks_like_project_title text then Inr (section, merged @ [text])
           else map_sum id (Pair section) (upd_last (\<lambda>l. rstrip l @ str '' '' @ text) merged))
     else if section = Exp then
       (if looks_like_job_header text then Inr (section, merged @ [text])
        else if merged \<noteq> []
             then map_sum id (Pair section) (upd_last (\<lambda>l. rstrip l @ str '' '' @ text) merged)
             else map_sum id (Pair section) (upd_last (\<lambda>l. text) merged))
     else Inr (section, merged @ [text]))"

fun merge_pass ::
  "section \<times> ustring list \<Rightarrow> ustring list \<Rightarrow> py_error + (section \<times> ustring list)" where
  "merge_pass st [] = Inr st"
| "merge_pass st (raw # lines) =
     (case merge_line st raw of Inl e \<Rightarrow> Inl e | Inr st' \<Rightarrow> merge_pass st' lines)"

section \<open>Section splitter\<close>

fun split_sections :: "section \<Rightarrow> ustring list \<Rightarrow> ustring list \<times> ustring list" where
  \<comment> \<open>the loop of lines 144-152; \<open>current\<close> is the bucket in use\<close>
  "split_sections current [] = ([], [])"
| "split_sections current (line # rest) =
     (if EXPERIENCE_HEADERS line then split_sections Exp rest
      else if PROJECTS_HEADERS line then split_sections Proj rest
      else if OTHER_HEADERS line then split_sections NoSection rest
      else case split_sections current rest of (exp_lines, proj_lines) \<Rightarrow>
        (case current of
           Exp \<Rightarrow> (line # exp_lines, proj_lines)
         | Proj \<Rightarrow> (exp_lines, line # proj_lines)
         | NoSection \<Rightarrow> (exp_lines, proj_lines)))"

section \<open>Repair passes\<close>

definition post_pass1 :: "ustring list \<Rightarrow> ustring list" where
  "post_pass1 proj = concat (map (\<lambda>item. with_title (split_trailing_title_if_any item)) proj)"

definition short_title_pair :: "ustring \<Rightarrow> ustring \<Rightarrow> bool" where
  \<comment> \<open>the two conditions of lines 168-169\<close>
  "short_title_pair cur nxt \<longleftrightarrow>
     looks_like_project_title cur \<and> looks_like_project_title nxt
     \<and> word_count cur \<le> 4 \<and> word_count nxt \<le> 4 \<and> word_count (cur @ str '' '' @ nxt) \<le> 8"

fun post_pass2 :: "ustring list \<Rightarrow> ustring list" where
  "post_pass2 (cur # nxt # rest) =
     (if short_title_pair cur nxt then strip (cur @ str '' '' @ nxt) # post_pass2 rest
      else cur # post_pass2 (nxt # rest))"
| "post_pass2 proj = proj"

definition tok_frag :: "ustring \<Rightarrow> bool" where
  \<comment> \<open>\<open>[A-Z]{2,}|[A-Z][a-z]+\<close> over a whole string\<close>
  "tok_frag u \<longleftrightarrow>
     (2 \<le> length u \<and> (\<forall>c \<in> set u. is_AZ c))
     \<or> (case u of [] \<Rightarrow> False | c # cs \<Rightarrow> is_AZ c \<and> cs \<noteq> [] \<and> (\<forall>d \<in> set cs. is_az d))"

definition frag_full :: "ustring \<Rightarrow> bool" where
  \<comment> \<open>one token, or two tokens with white space between, over a whole string\<close>
  "frag_full u \<longleftrightarrow>
     tok_frag u
     \<or> (let a = takeWhile (\<lambda>c. \<not> isspace c) u;
            r = dropWhile (\<lambda>c. \<not> isspace c) u
        in r \<noteq> [] \<and> tok_frag a \<and> tok_frag (dropWhile isspace r))"

definition FRAG_RE :: "ustring \<Rightarrow> ustring option" where
  \<comment> \<open>\<open>search\<close> and \<open>group(0)\<close>: the pattern ends in \<open>$\<close>, so the match is the suffix at the
      leftmost position from which the pattern reaches the end.  The callers pass a
      right-stripped string, which has no final newline for \<open>$\<close> to stop before.\<close>
  "FRAG_RE s =
     (case filter (\<lambda>i. frag_full (drop i s)) [0..<length s] of
        [] \<Rightarrow> None | i # _ \<Rightarrow> Some (drop i s))"

definition rfind :: "ustring \<Rightarrow> ustring \<Rightarrow> int" where
  \<comment> \<open>\<open>s.rfind(sub)\<close>: the highest index where \<open>sub\<close> occurs, or -1\<close>
  "rfind s sub =
     (case filter (\<lambda>i. startswith (drop i s) sub) (rev [0..<Suc (length s)]) of
        [] \<Rightarrow> - 1 | i # _ \<Rightarrow> int i)"

definition slice_to :: "ustring \<Rightarrow> int \<Rightarrow> ustring" where
  \<comment> \<open>\<open>s[:k]\<close>; a negative \<open>k\<close> counts from the end\<close>
  "slice_to s k = (if k < 0 then take (nat (int (length s) + k)) s else take (nat k) s)"

definition DASH_END :: "ustring list" where
  \<comment> \<open>the tuple \<open>(' -', U+2013, U+2014)\<close>\<close>
  "DASH_END = [str '' -'', [8211], [8212]]"

fun post_pass3 :: "ustring list \<Rightarrow> ustring list" where
  \<comment> \<open>the loop of lines 181-200; the assignment to \<open>proj[i+1]\<close> changes the item the next
      iteration reads\<close>
  "post_pass3 (item # nxt # rest) =
     (if is_bullet item \<and> looks_like_project_title nxt then
        (case FRAG_RE (rstrip item) of
           Some frag \<Rightarrow>
             if frag \<noteq> [] \<and> \<not> endswith_any (strip item) SENTENCE_END then
               (let trimmed = rstrip (slice_to item (rfind item frag));
                    trimmed' = (if endswith_any trimmed DASH_END
                                then rstrip (slice_to trimmed (- 1)) else trimmed)
                in trimmed' # post_pass3 (strip (frag @ str '' '' @ nxt) # rest))
             else item # post_pass3 (nxt # rest)
         | None \<Rightarrow> item # post_pass3 (nxt # rest))
      else item # post_pass3 (nxt # rest))"
| "post_pass3 proj = proj"

section \<open>The engine\<close>

definition split_and_merge :: "ustring list \<Rightarrow> py_error + (ustring list \<times> ustring list)" where
  "split_and_merge lines =
     (case merge_pass (NoSection, []) lines of
        Inl e \<Rightarrow> Inl e
      | Inr (section, merged) \<Rightarrow>
          (case split_sections NoSection merged of (exp_lines, proj) \<Rightarrow>
             Inr (exp_lines, post_pass3 (post_pass2 (post_pass1 proj)))))"

definition projects :: "ustring list \<Rightarrow> py_error + ustring list" where
  \<comment> \<open>the second component of the returned pair\<close>
  "projects lines = map_sum id snd (split_and_merge lines)"

section \<open>Vocabulary of the properties\<close>

definition tokens_of :: "ustring \<Rightarrow> ustring list" where
  \<comment> \<open>\<open>tokens\<close> of line 59\<close>
  "tokens_of text = re_split_ws (strip text)"

definition split_window :: "ustring list \<Rightarrow> nat list" where
  \<comment> \<open>the candidate starts of line 60, lowest first\<close>
  "split_window tokens = [length tokens - 10..<length tokens - 1]"

definition candidate_at :: "ustring list \<Rightarrow> nat \<Rightarrow> ustring" where
  \<comment> \<open>\<open>candidate\<close> of line 61\<close>
  "candidate_at tokens start = join (str '' '') (drop start tokens)"

definition prefix_at :: "ustring list \<Rightarrow> nat \<Rightarrow> ustring" where
  \<comment> \<open>\<open>prefix\<close> of line 62\<close>
  "prefix_at tokens start = rstrip (join (str '' '') (take start tokens))"

definition qualifies :: "ustring list \<Rightarrow> nat \<Rightarrow> bool" where
  \<comment> \<open>the test of line 63\<close>
  "qualifies tokens start \<longleftrightarrow>
     prefix_at tokens start \<noteq> [] \<and> looks_like_project_title (candidate_at tokens start)"

fun no_adjacent_short_titles :: "ustring list \<Rightarrow> bool" where
  \<comment> \<open>no two neighbours satisfy the merge test of repair pass 2\<close>
  "no_adjacent_short_titles (a # b # rest) \<longleftrightarrow>
     \<not> short_title_pair a b \<and> no_adjacent_short_titles (b # rest)"
| "no_adjacent_short_titles _ \<longleftrightarrow> True"

definition is_header :: "ustring \<Rightarrow> bool" where
  \<comment> \<open>a line that switches the section: the three tests of lines 90-98 and 145-150\<close>
  "is_header line \<longleftrightarrow>
     EXPERIENCE_HEADERS line \<or> PROJECTS_HEADERS line \<or> OTHER_HEADERS line"

definition spec_looksLikeProjectTitle :: "ustring \<Rightarrow> bool" where
  \<comment> \<open>The reference definition in the specification's words: a word is significant when
      it is not in the stoplist; the title-cased test is the one of line 50.\<close>
  "spec_looksLikeProjectTitle line =
     (let t = strip line;
          words = filter (\<lambda>w. w \<noteq> []) (re_split_ws t);
          significant = filter (\<lambda>w. w \<notin> set SMALL_WORDS) words;
          cased = filter titleish_word significant
      in if length t < 2 \<or> length t > 120 then False
         else if endswith_any t SENTENCE_END then False
         else if length words < 1 \<or> length words > 10 then False
         else significant \<noteq> []
              \<and> (of_nat (length cased) / of_nat (length significant) :: rat) \<ge> 6 / 10)"

definition ref_looksLikeProjectTitle :: "ustring \<Rightarrow> bool" where
  \<comment> \<open>The reference definition with the stoplist test read as the source has it: the
      word is lower-cased and stripped of \<open>.,:;()[]\<close> at both ends before the lookup.\<close>
  "ref_looksLikeProjectTitle line =
     (let t = strip line;
          words = filter (\<lambda>w. w \<noteq> []) (re_split_ws t);
          significant = filter (\<lambda>w. \<not> small_word w) words;
          cased = filter titleish_word significant
      in if length t < 2 \<or> length t > 120 then False
         else if endswith_any t SENTENCE_END then False
         else if length words < 1 \<or> length words > 10 then False
         else significant \<noteq> []
              \<and> (of_nat (length cased) / of_nat (length significant) :: rat) \<ge> 6 / 10)"

definition long_title :: string where
  \<comment> \<open>a two-word title of 119 characters\<close>
  "long_title = ''A'' @ replicate 58 CHR ''a'' @ '' B'' @ replicate 58 CHR ''b''"

section \<open>Scenarios\<close>

text \<open>
  C1 (as stated): for the input \<open>["Projects", "- Built dashboard for metrics AnalyticsSuite",
  "Real-Time Monitor"]\<close> the projects output is \<open>["Built dashboard for metrics",
  "AnalyticsSuite Real-Time Monitor"]\<close>.  The engine does not return that list.
\<close>

theorem scenario_C_claimed_output_refuted:
  "projects (map str [''Projects'', ''- Built dashboard for metrics AnalyticsSuite'',
      ''Real-Time Monitor''])
   \<noteq> Inr (map str [''Built dashboard for metrics'', ''AnalyticsSuite Real-Time Monitor''])"
  by code_simp

text \<open>
  C1 (amended): for that input the merge pass joins \<open>Real-Time Monitor\<close> onto the bullet as
  a continuation (a two-token line has no non-empty prefix to split from), repair pass 1
  then splits the joined bullet right after the bullet glyph, and no fragment is rescued:
  the projects output is \<open>["-", "Built dashboard for metrics AnalyticsSuite Real-Time
  Monitor"]\<close>.
\<close>

theorem scenario_C_actual_output:
  "projects (map str [''Projects'', ''- Built dashboard for metrics AnalyticsSuite'',
      ''Real-Time Monitor''])
   = Inr (map str [''-'', ''Built dashboard for metrics AnalyticsSuite Real-Time Monitor''])"
  by code_simp

text \<open>
  C2 (as stated): for the input \<open>["Projects", "Suspicious", "Activity Detection",
  "- Built a model for X."]\<close> the projects output is \<open>["Suspicious Activity Detection",
  "Built a model for X."]\<close>, the bullet glyph and the space after it stripped.  The engine
  does not return that list.
\<close>

theorem scenario_A_claimed_output_refuted:
  "projects (map str [''Projects'', ''Suspicious'', ''Activity Detection'',
      ''- Built a model for X.''])
   \<noteq> Inr (map str [''Suspicious Activity Detection'', ''Built a model for X.''])"
  by code_simp

text \<open>
  C2 (amended): for that input the two short title fragments are merged into one item and
  the bullet item is kept as it was read, glyph included: the projects output is
  \<open>["Suspicious Activity Detection", "- Built a model for X."]\<close>.
\<close>

theorem scenario_A_actual_output:
  "projects (map str [''Projects'', ''Suspicious'', ''Activity Detection'',
      ''- Built a model for X.''])
   = Inr (map str [''Suspicious Activity Detection'', ''- Built a model for X.''])"
  by code_simp

section \<open>Facts about text\<close>

lemma strip_Nil [simp]: "strip [] = []"
  by (simp add: strip_def rstrip_by_def lstrip_by_def)

lemma strip_last: "strip raw \<noteq> [] \<Longrightarrow> \<not> isspace (last (strip raw))"
proof -
  assume ne: "strip raw \<noteq> []"
  let ?u = "dropWhile isspace (rev (dropWhile isspace raw))"
  have s: "strip raw = rev ?u" by (simp add: strip_def rstrip_by_def lstrip_by_def)
  with ne have "?u \<noteq> []" by simp
  then have "\<not> isspace (hd ?u)" by (rule hd_dropWhile)
  moreover have "last (strip raw) = hd ?u" using s \<open>?u \<noteq> []\<close> by (simp add: last_rev)
  ultimately show ?thesis by simp
qed

lemma strip_hd: "strip raw \<noteq> [] \<Longrightarrow> \<not> isspace (hd (strip raw))"
proof -
  assume ne: "strip raw \<noteq> []"
  let ?v = "dropWhile isspace raw"
  have s: "strip raw = rev (dropWhile isspace (rev ?v))"
    by (simp add: strip_def rstrip_by_def lstrip_by_def)
  have "rev ?v = takeWhile isspace (rev ?v) @ dropWhile isspace (rev ?v)" by simp
  then have "?v = strip raw @ rev (takeWhile isspace (rev ?v))"
    using s by (metis rev_append rev_rev_ident)
  then have "hd ?v = hd (strip raw)" using ne by (metis hd_append2)
  moreover have "?v \<noteq> []"
  proof
    assume e: "?v = []"
    have "strip raw = []" unfolding s e by simp
    with ne show False by simp
  qed
  then have "\<not> isspace (hd ?v)" by (rule hd_dropWhile)
  ultimately show ?thesis by simp
qed

lemma rstrip_id: "s \<noteq> [] \<Longrightarrow> \<not> isspace (last s) \<Longrightarrow> rstrip s = s"
proof -
  assume "s \<noteq> []" "\<not> isspace (last s)"
  then have "dropWhile isspace (rev s) = rev s"
    by (metis dropWhile_eq_self_iff hd_rev)
  then show ?thesis by (simp add: rstrip_def rstrip_by_def)
qed

lemma str_space: "str '' '' = [32]"
  by (simp add: str_def)

lemma re_split_ws_last:
  assumes a: "dropWhile (\<lambda>c. \<not> isspace c) s = []"
  shows "re_split_ws s = [takeWhile (\<lambda>c. \<not> isspace c) s]"
proof -
  have "re_split_ws s =
      (let tok = takeWhile (\<lambda>c. \<not> isspace c) s; rest = dropWhile (\<lambda>c. \<not> isspace c) s
       in if rest = [] then [tok] else tok # re_split_ws (dropWhile isspace rest))"
    by (rule re_split_ws.simps)
  then show ?thesis unfolding Let_def a by simp
qed

lemma re_split_ws_more:
  assumes a: "dropWhile (\<lambda>c. \<not> isspace c) s \<noteq> []"
  shows "re_split_ws s = takeWhile (\<lambda>c. \<not> isspace c) s
           # re_split_ws (dropWhile isspace (dropWhile (\<lambda>c. \<not> isspace c) s))"
proof -
  have "re_split_ws s =
      (let tok = takeWhile (\<lambda>c. \<not> isspace c) s; rest = dropWhile (\<lambda>c. \<not> isspace c) s
       in if rest = [] then [tok] else tok # re_split_ws (dropWhile isspace rest))"
    by (rule re_split_ws.simps)
  then show ?thesis unfolding Let_def using a by (simp only: if_False simp_thms)
qed


lemma tokens_nospace: "t \<in> set (re_split_ws s) \<Longrightarrow> c \<in> set t \<Longrightarrow> \<not> isspace c"
proof (induction s arbitrary: t rule: re_split_ws.induct)
  case (1 s)
  let ?tok = "takeWhile (\<lambda>c. \<not> isspace c) s" and ?rest = "dropWhile (\<lambda>c. \<not> isspace c) s"
  show ?case
  proof (cases "?rest = []")
    case True
    then have "re_split_ws s = [?tok]" by (rule re_split_ws_last)
    with "1.prems" have "c \<in> set ?tok" by simp
    then show ?thesis by (auto dest: set_takeWhileD)
  next
    case False
    then have e: "re_split_ws s = ?tok # re_split_ws (dropWhile isspace ?rest)"
      by (rule re_split_ws_more)
    show ?thesis
    proof (cases "t = ?tok")
      case True
      with "1.prems" show ?thesis by (auto dest: set_takeWhileD)
    next
      case nt: False
      with e "1.prems" have "t \<in> set (re_split_ws (dropWhile isspace ?rest))" by simp
      with "1.IH" [OF refl refl False] "1.prems"(2) show ?thesis by blast
    qed
  qed
qed

lemma tokens_nonempty:
  "s \<noteq> [] \<Longrightarrow> \<not> isspace (hd s) \<Longrightarrow> \<not> isspace (last s) \<Longrightarrow> [] \<notin> set (re_split_ws s)"
proof (induction s rule: re_split_ws.induct)
  case (1 s)
  let ?tok = "takeWhile (\<lambda>c. \<not> isspace c) s" and ?rest = "dropWhile (\<lambda>c. \<not> isspace c) s"
  have tok: "?tok \<noteq> []" using "1.prems"(1,2) by (cases s) simp_all
  show ?case
  proof (cases "?rest = []")
    case True
    then have "re_split_ws s = [?tok]" by (rule re_split_ws_last)
    with tok show ?thesis by simp
  next
    case False
    let ?s' = "dropWhile isspace ?rest"
    have e: "re_split_ws s = ?tok # re_split_ws ?s'"
      using False by (rule re_split_ws_more)
    have "s = ?tok @ ?rest" by simp
    then have lr: "last ?rest = last s" using False by (metis last_appendR)
    have "last ?rest \<in> set ?rest" using False by simp
    with lr "1.prems"(3) have ne': "?s' \<noteq> []" by (auto simp: dropWhile_eq_Nil_conv)
    then have h': "\<not> isspace (hd ?s')" by (rule hd_dropWhile)
    have "?rest = takeWhile isspace ?rest @ ?s'" by simp
    then have "last ?s' = last ?rest" using ne' by (metis last_appendR)
    with lr "1.prems"(3) have l': "\<not> isspace (last ?s')" by simp
    from "1.IH" [OF refl refl False ne' h' l'] e tok show ?thesis by simp
  qed
qed

lemma sp32: "isspace 32"
  by (simp add: isspace_def)

lemma split_join:
  "toks \<noteq> [] \<Longrightarrow> \<forall>t \<in> set toks. t \<noteq> [] \<and> (\<forall>c \<in> set t. \<not> isspace c)
   \<Longrightarrow> re_split_ws (join [32] toks) = toks"
proof (induction "[32::int]" toks rule: join.induct)
  case 1
  then show ?case by simp
next
  case (2 x)
  then have "takeWhile (\<lambda>c. \<not> isspace c) x = x" "dropWhile (\<lambda>c. \<not> isspace c) x = []"
    by simp_all
  then show ?case by (simp add: re_split_ws_last)
next
  case (3 x y ys)
  let ?j = "join [32] (y # ys)"
  from "3.prems" have x: "\<forall>c \<in> set x. \<not> isspace c" and y: "y \<noteq> []" "\<not> isspace (hd y)"
    by simp_all
  have tw: "takeWhile (\<lambda>c. \<not> isspace c) (x @ 32 # ?j) = x"
    using x sp32 by (simp add: takeWhile_append2)
  have dw: "dropWhile (\<lambda>c. \<not> isspace c) (x @ 32 # ?j) = 32 # ?j"
    using x sp32 by (simp add: dropWhile_append2)
  have hj: "?j \<noteq> [] \<and> hd ?j = hd y" using y by (cases ys) simp_all
  then have dj: "dropWhile isspace (32 # ?j) = ?j"
    using y sp32 by (cases ?j) simp_all
  have "re_split_ws (x @ 32 # ?j) = x # re_split_ws ?j"
    using re_split_ws_more [of "x @ 32 # ?j"] unfolding tw dw dj by simp
  then have "re_split_ws (join [32] (x # y # ys)) = x # re_split_ws ?j"
    by simp
  moreover have "re_split_ws ?j = y # ys" using "3.hyps" "3.prems" by simp
  ultimately show ?case by simp
qed

lemma join_ends:
  "toks \<noteq> [] \<Longrightarrow> \<forall>t \<in> set toks. t \<noteq> []
   \<Longrightarrow> join [32] toks \<noteq> [] \<and> hd (join [32] toks) = hd (hd toks)
       \<and> last (join [32] toks) = last (last toks)"
  by (induction "[32::int]" toks rule: join.induct) simp_all

lemma strip_id: "s \<noteq> [] \<Longrightarrow> \<not> isspace (hd s) \<Longrightarrow> \<not> isspace (last s) \<Longrightarrow> strip s = s"
proof -
  assume a: "s \<noteq> []" "\<not> isspace (hd s)" "\<not> isspace (last s)"
  then have "dropWhile isspace s = s" by (cases s) simp_all
  moreover have "dropWhile isspace (rev s) = rev s"
    using a by (metis dropWhile_eq_self_iff hd_rev)
  ultimately show ?thesis by (simp add: strip_def rstrip_by_def lstrip_by_def)
qed

lemma word_count_join:
  assumes ne: "toks \<noteq> []" and ok: "\<forall>t \<in> set toks. t \<noteq> [] \<and> (\<forall>c \<in> set t. \<not> isspace c)"
  shows "word_count (join [32] toks) = length toks"
proof -
  from ok have ne': "\<forall>t \<in> set toks. t \<noteq> []" by simp
  note je = join_ends [OF ne ne']
  have ht: "hd toks \<in> set toks" and lt: "last toks \<in> set toks" using ne by simp_all
  from ok ht have "hd (hd toks) \<in> set (hd toks)" by simp
  with ok ht have h: "\<not> isspace (hd (hd toks))" by blast
  from ok lt have "last (last toks) \<in> set (last toks)" by simp
  with ok lt have l: "\<not> isspace (last (last toks))" by blast
  from h l je have "strip (join [32] toks) = join [32] toks" by (simp add: strip_id)
  moreover have "filter (\<lambda>w. w \<noteq> []) toks = toks" using ne' by (simp add: filter_id_conv)
  ultimately show ?thesis by (simp add: word_count_def split_join [OF ne ok])
qed

lemma re_split_ws_Nil: "re_split_ws [] = [Nil]"
  by (simp add: re_split_ws_last)

lemma tokens_of_wellformed:
  assumes "2 \<le> length (tokens_of text)"
  shows "\<forall>t \<in> set (tokens_of text). t \<noteq> [] \<and> (\<forall>c \<in> set t. \<not> isspace c)"
proof -
  have ne: "strip text \<noteq> []"
  proof
    assume "strip text = []"
    then have "length (tokens_of text) = 1" by (simp add: tokens_of_def re_split_ws_Nil)
    with assms show False by simp
  qed
  have "[] \<notin> set (tokens_of text)"
    unfolding tokens_of_def using ne strip_hd [OF ne] strip_last [OF ne] by (rule tokens_nonempty)
  then show ?thesis
    using tokens_nospace [of _ "strip text"] by (metis tokens_of_def)
qed

section \<open>Trailing-title splitter: which split is returned\<close>

lemma scan_starts_find:
  "scan_starts tokens starts =
     map_option (\<lambda>s. (prefix_at tokens s, candidate_at tokens s)) (find (qualifies tokens) starts)"
  by (induction starts) (simp_all add: qualifies_def prefix_at_def candidate_at_def Let_def)

lemma split_find:
  "split_trailing_title_if_any text =
     (case find (qualifies (tokens_of text)) (split_window (tokens_of text)) of
        None \<Rightarrow> (text, None)
      | Some s \<Rightarrow> (prefix_at (tokens_of text) s, Some (candidate_at (tokens_of text) s)))"
  by (simp add: split_trailing_title_if_any_def scan_starts_find tokens_of_def split_window_def Let_def
      split: option.splits)

lemma find_upt_least:
  "find P [a..<b] = Some s \<longleftrightarrow> a \<le> s \<and> s < b \<and> P s \<and> (\<forall>k. a \<le> k \<and> k < s \<longrightarrow> \<not> P k)"
proof (induction "b - a" arbitrary: a)
  case 0
  then show ?case by auto
next
  case (Suc n)
  then have ab: "a < b" and n: "n = b - Suc a" by auto
  have upt: "[a..<b] = a # [Suc a..<b]" using ab by (simp add: upt_conv_Cons)
  show ?case
  proof (cases "P a")
    case True
    then show ?thesis using ab upt
      by (metis find.simps(2) leD le_eq_less_or_eq option.inject)
  next
    case False
    have "find P [a..<b] = find P [Suc a..<b]" using False upt by simp
    also have "\<dots> = Some s \<longleftrightarrow> Suc a \<le> s \<and> s < b \<and> P s \<and> (\<forall>k. Suc a \<le> k \<and> k < s \<longrightarrow> \<not> P k)"
      using Suc.hyps(1)[OF n] .
    finally show ?thesis using False
      by (metis Suc_leD Suc_le_eq le_eq_less_or_eq)
  qed
qed


text \<open>
  C3 (as stated): when several split points of the window qualify, the split with the
  longest prefix is returned.  For \<open>x Foo Bar Baz\<close> the starts 1 and 2 both qualify; the
  prefix at start 2, \<open>x Foo\<close>, is the longer one, and the splitter returns the prefix
  \<open>x\<close> of start 1.
\<close>

theorem split_longest_prefix_refuted:
  "1 \<in> set (split_window (tokens_of (str ''x Foo Bar Baz'')))
   \<and> 2 \<in> set (split_window (tokens_of (str ''x Foo Bar Baz'')))
   \<and> qualifies (tokens_of (str ''x Foo Bar Baz'')) 1
   \<and> qualifies (tokens_of (str ''x Foo Bar Baz'')) 2
   \<and> prefix_at (tokens_of (str ''x Foo Bar Baz'')) 2 = str ''x Foo''
   \<and> split_trailing_title_if_any (str ''x Foo Bar Baz'') = (str ''x'', Some (str ''Foo Bar Baz''))
   \<and> length (fst (split_trailing_title_if_any (str ''x Foo Bar Baz'')))
       < length (prefix_at (tokens_of (str ''x Foo Bar Baz'')) 2)"
  by code_simp

text \<open>
  C3 (amended): when some start of the window qualifies, the splitter returns the split at
  the lowest qualifying start (the first match of the scan from lowest to highest start):
  the split with the fewest tokens in the prefix and the longest title.
\<close>

theorem split_returns_lowest_qualifying_start:
  assumes "start \<in> set (split_window (tokens_of text))" and "qualifies (tokens_of text) start"
  shows "\<exists>s0 \<le> start. s0 \<in> set (split_window (tokens_of text)) \<and> qualifies (tokens_of text) s0
           \<and> (\<forall>k \<in> set (split_window (tokens_of text)). k < s0 \<longrightarrow> \<not> qualifies (tokens_of text) k)
           \<and> split_trailing_title_if_any text
               = (prefix_at (tokens_of text) s0, Some (candidate_at (tokens_of text) s0))"
proof -
  let ?T = "tokens_of text"
  let ?a = "length ?T - 10" and ?b = "length ?T - 1"
  from assms have "find (qualifies ?T) [?a..<?b] \<noteq> None"
    by (auto simp: find_None_iff split_window_def)
  then obtain s0 where f: "find (qualifies ?T) [?a..<?b] = Some s0" by auto
  then have p: "?a \<le> s0" "s0 < ?b" "qualifies ?T s0"
      "\<forall>k. ?a \<le> k \<and> k < s0 \<longrightarrow> \<not> qualifies ?T k"
    by (simp_all add: find_upt_least)
  have "s0 \<le> start"
  proof (rule ccontr)
    assume "\<not> s0 \<le> start"
    then have "start < s0" by simp
    moreover have "?a \<le> start" using assms(1) by (simp add: split_window_def)
    ultimately show False using p(4) assms(2) by blast
  qed
  moreover have "split_trailing_title_if_any text = (prefix_at ?T s0, Some (candidate_at ?T s0))"
    using f by (simp add: split_find split_window_def)
  ultimately show ?thesis using p by (auto simp: split_window_def)
qed

theorem split_returns_lowest_qualifying_start_witness:
  "2 \<in> set (split_window (tokens_of (str ''x Foo Bar Baz'')))
   \<and> qualifies (tokens_of (str ''x Foo Bar Baz'')) 2
   \<and> (\<exists>s0 \<le> 2. s0 \<in> set (split_window (tokens_of (str ''x Foo Bar Baz'')))
        \<and> qualifies (tokens_of (str ''x Foo Bar Baz'')) s0
        \<and> (\<forall>k \<in> set (split_window (tokens_of (str ''x Foo Bar Baz''))).
              k < s0 \<longrightarrow> \<not> qualifies (tokens_of (str ''x Foo Bar Baz'')) k)
        \<and> split_trailing_title_if_any (str ''x Foo Bar Baz'')
            = (prefix_at (tokens_of (str ''x Foo Bar Baz'')) s0,
               Some (candidate_at (tokens_of (str ''x Foo Bar Baz'')) s0)))"
proof -
  have h1: "2 \<in> set (split_window (tokens_of (str ''x Foo Bar Baz'')))" by code_simp
  have h2: "qualifies (tokens_of (str ''x Foo Bar Baz'')) 2" by code_simp
  show ?thesis
    using split_returns_lowest_qualifying_start [OF h1 h2] h1 h2 by blast
qed

text \<open>
  C9: the splitter either returns the line itself with no title, or a non-empty prefix and
  a title made of the last tokens from some start on, with at least two tokens left for the
  title: the title counts at least two words.  A single trailing token is never split off,
  whatever the title test says about it.
\<close>

theorem split_trailing_title_shape:
  "split_trailing_title_if_any text = (text, None)
   \<or> (\<exists>start. start + 2 \<le> length (tokens_of text)
         \<and> split_trailing_title_if_any text
             = (prefix_at (tokens_of text) start, Some (candidate_at (tokens_of text) start))
         \<and> prefix_at (tokens_of text) start \<noteq> []
         \<and> looks_like_project_title (candidate_at (tokens_of text) start)
         \<and> word_count (candidate_at (tokens_of text) start) = length (tokens_of text) - start
         \<and> 2 \<le> word_count (candidate_at (tokens_of text) start))"
proof (cases "find (qualifies (tokens_of text)) (split_window (tokens_of text))")
  case None
  then show ?thesis by (simp add: split_find)
next
  case (Some s)
  let ?T = "tokens_of text"
  from Some have b: "s < length ?T - 1" and q: "qualifies ?T s"
    by (simp_all add: split_window_def find_upt_least)
  then have len: "s + 2 \<le> length ?T" by arith
  then have ok: "\<forall>t \<in> set ?T. t \<noteq> [] \<and> (\<forall>c \<in> set t. \<not> isspace c)"
    by (intro tokens_of_wellformed) simp
  have sub: "set (drop s ?T) \<subseteq> set ?T" by (rule set_drop_subset)
  have dne: "drop s ?T \<noteq> []" using len by simp
  have "word_count (join [32] (drop s ?T)) = length (drop s ?T)"
    using dne ok sub by (intro word_count_join) auto
  then have wc: "word_count (candidate_at ?T s) = length ?T - s"
    by (simp add: candidate_at_def str_space)
  have "split_trailing_title_if_any text = (prefix_at ?T s, Some (candidate_at ?T s))"
    using Some by (simp add: split_find)
  with len q wc show ?thesis
    unfolding qualifies_def by (intro disjI2 exI [of _ s]) simp
qed

theorem split_trailing_title_shape_witness:
  "looks_like_project_title (str ''Dashboard'')
   \<and> split_trailing_title_if_any (str ''fix Dashboard'') = (str ''fix Dashboard'', None)
   \<and> split_trailing_title_if_any (str ''fix the Metrics Dashboard'')
       = (str ''fix'', Some (str ''the Metrics Dashboard''))
   \<and> (split_trailing_title_if_any (str ''fix the Metrics Dashboard'')
         = (str ''fix the Metrics Dashboard'', None)
       \<or> (\<exists>start. start + 2 \<le> length (tokens_of (str ''fix the Metrics Dashboard''))
            \<and> split_trailing_title_if_any (str ''fix the Metrics Dashboard'')
                = (prefix_at (tokens_of (str ''fix the Metrics Dashboard'')) start,
                   Some (candidate_at (tokens_of (str ''fix the Metrics Dashboard'')) start))
            \<and> prefix_at (tokens_of (str ''fix the Metrics Dashboard'')) start \<noteq> []
            \<and> looks_like_project_title
                (candidate_at (tokens_of (str ''fix the Metrics Dashboard'')) start)
            \<and> word_count (candidate_at (tokens_of (str ''fix the Metrics Dashboard'')) start)
                = length (tokens_of (str ''fix the Metrics Dashboard'')) - start
            \<and> 2 \<le> word_count
                (candidate_at (tokens_of (str ''fix the Metrics Dashboard'')) start)))"
proof -
  have e: "looks_like_project_title (str ''Dashboard'')
      \<and> split_trailing_title_if_any (str ''fix Dashboard'') = (str ''fix Dashboard'', None)
      \<and> split_trailing_title_if_any (str ''fix the Metrics Dashboard'')
          = (str ''fix'', Some (str ''the Metrics Dashboard''))"
    by code_simp
  show ?thesis
    using e split_trailing_title_shape [of "str ''fix the Metrics Dashboard''"] by blast
qed

section \<open>Repair pass 2\<close>

lemma length_post_pass2: "length (post_pass2 xs) \<le> length xs"
  by (induction xs rule: post_pass2.induct) auto

text \<open>
  C4 (as stated): one run of repair pass 2 leaves no two adjacent items that satisfy the
  short-title merge test, so a second run merges nothing.  For \<open>["Abc", "Cde", "Efg"]\<close>
  the first run merges the first two items and emits \<open>Efg\<close> unexamined against the merged
  item; the output \<open>["Abc Cde", "Efg"]\<close> is a mergeable pair, and a second run merges it.
  The same list is the engine's projects output for \<open>["Projects", "Abc", "Cde", "Efg"]\<close>.
\<close>

theorem post_pass2_not_idempotent:
  "post_pass2 (map str [''Abc'', ''Cde'', ''Efg'']) = map str [''Abc Cde'', ''Efg'']
   \<and> short_title_pair (str ''Abc Cde'') (str ''Efg'')
   \<and> post_pass2 (post_pass2 (map str [''Abc'', ''Cde'', ''Efg''])) = map str [''Abc Cde Efg'']
   \<and> post_pass2 (post_pass2 (map str [''Abc'', ''Cde'', ''Efg'']))
       \<noteq> post_pass2 (map str [''Abc'', ''Cde'', ''Efg''])
   \<and> projects (map str [''Projects'', ''Abc'', ''Cde'', ''Efg''])
       = Inr (map str [''Abc Cde'', ''Efg''])"
  by code_simp

text \<open>
  C4 (amended): repair pass 2 returns a list unchanged exactly when no two adjacent items
  of it satisfy the short-title merge test.  So it is idempotent on an already clean list,
  and a second run over its own output merges nothing further exactly when that output has
  no such adjacent pair, which one run does not ensure.
\<close>

theorem post_pass2_fixpoint_iff_clean:
  "post_pass2 xs = xs \<longleftrightarrow> no_adjacent_short_titles xs"
proof (induction xs rule: post_pass2.induct)
  case (1 cur nxt rest)
  show ?case
  proof (cases "short_title_pair cur nxt")
    case True
    have "length (post_pass2 (cur # nxt # rest)) \<le> Suc (length rest)"
      using True length_post_pass2 [of rest] by simp
    then have "post_pass2 (cur # nxt # rest) \<noteq> cur # nxt # rest"
      by (metis Suc_n_not_le_n length_Cons)
    with True show ?thesis by simp
  next
    case False
    with 1 show ?thesis by simp
  qed
qed simp_all

theorem post_pass2_fixpoint_iff_clean_witness:
  "no_adjacent_short_titles (map str [''Abc Cde Efg'', ''- Built a model for X.''])
   \<and> post_pass2 (map str [''Abc Cde Efg'', ''- Built a model for X.''])
       = map str [''Abc Cde Efg'', ''- Built a model for X.'']
   \<and> \<not> no_adjacent_short_titles (map str [''Abc Cde'', ''Efg''])
   \<and> post_pass2 (map str [''Abc Cde'', ''Efg'']) \<noteq> map str [''Abc Cde'', ''Efg'']"
proof -
  have h: "no_adjacent_short_titles (map str [''Abc Cde Efg'', ''- Built a model for X.''])
      \<and> \<not> no_adjacent_short_titles (map str [''Abc Cde'', ''Efg''])"
    by code_simp
  show ?thesis
    using h post_pass2_fixpoint_iff_clean [of "map str [''Abc Cde Efg'', ''- Built a model for X.'']"]
      post_pass2_fixpoint_iff_clean [of "map str [''Abc Cde'', ''Efg'']"]
    by blast
qed

section \<open>Totality\<close>

lemma chk_total: "looks_like_project_title_chk t = Inr (looks_like_project_title t)"
  by (simp add: looks_like_project_title_def looks_like_project_title_chk_def Let_def
      ratio_ge_06_def split: prod.splits)

lemma merge_line_total:
  assumes "sec = Exp \<longrightarrow> merged \<noteq> []"
  shows "\<exists>sec' merged'. merge_line (sec, merged) raw = Inr (sec', merged')
           \<and> (sec' = Exp \<longrightarrow> merged' \<noteq> [])"
  using assms
  by (auto simp: merge_line_def Let_def upd_last_def split: prod.splits)

lemma merge_pass_total:
  "(fst st = Exp \<longrightarrow> snd st \<noteq> []) \<Longrightarrow> \<exists>st'. merge_pass st lines = Inr st'"
proof (induction lines arbitrary: st)
  case Nil
  then show ?case by simp
next
  case (Cons raw lines)
  obtain sec merged where st: "st = (sec, merged)" by (cases st)
  with Cons.prems obtain sec' merged' where
    m: "merge_line st raw = Inr (sec', merged')" and i: "sec' = Exp \<longrightarrow> merged' \<noteq> []"
    using merge_line_total [of sec merged raw] by auto
  from Cons.IH [of "(sec', merged')"] i obtain st' where "merge_pass (sec', merged') lines = Inr st'"
    by auto
  with m show ?case by simp
qed

text \<open>
  C6: \<open>split_and_merge\<close> returns a pair of lists for every input sequence, never an error:
  the write to \<open>merged[-1]\<close> in the Experience branch happens only after a header has been
  appended, the Projects branch tests \<open>merged\<close> first, and the division in the title test
  is reached only with a non-zero divisor.  On the empty input the pair is \<open>([], [])\<close>.
\<close>

theorem split_and_merge_total:
  "(\<exists>e p. split_and_merge lines = Inr (e, p))
   \<and> split_and_merge [] = Inr ([], [])
   \<and> (\<exists>b. looks_like_project_title_chk t = Inr b)"
proof -
  obtain st' where "merge_pass (NoSection, []) lines = Inr st'"
    using merge_pass_total [of "(NoSection, [])" lines] by auto
  then have "\<exists>e p. split_and_merge lines = Inr (e, p)"
    by (auto simp: split_and_merge_def split: prod.splits)
  moreover have "split_and_merge [] = Inr ([], [])"
    by (simp add: split_and_merge_def post_pass1_def)
  ultimately show ?thesis using chk_total by blast
qed

theorem split_and_merge_total_witness:
  "(\<exists>e p. split_and_merge (map str [''Experience'',
        ''Software Engineer - Acme Corp, NY - Jan 2020 - Mar 2022'', ''- Led backend rewrite.''])
      = Inr (e, p))
   \<and> split_and_merge (map str [''Experience'',
        ''Software Engineer - Acme Corp, NY - Jan 2020 - Mar 2022'', ''- Led backend rewrite.''])
      = Inr (map str [''Software Engineer - Acme Corp, NY - Jan 2020 - Mar 2022'',
               ''- Led backend rewrite.''], [])
   \<and> (\<exists>b. looks_like_project_title_chk (str ''of the'') = Inr b)
   \<and> looks_like_project_title_chk (str ''of the'') = Inr False"
proof -
  have e: "split_and_merge (map str [''Experience'',
        ''Software Engineer - Acme Corp, NY - Jan 2020 - Mar 2022'', ''- Led backend rewrite.''])
      = Inr (map str [''Software Engineer - Acme Corp, NY - Jan 2020 - Mar 2022'',
               ''- Led backend rewrite.''], [])
      \<and> looks_like_project_title_chk (str ''of the'') = Inr False"
    by code_simp
  show ?thesis
    using e split_and_merge_total [of "map str [''Experience'',
        ''Software Engineer - Acme Corp, NY - Jan 2020 - Mar 2022'', ''- Led backend rewrite.'']"
        "str ''of the''"]
    by blast
qed

section \<open>Header exclusion\<close>

lemma split_sections_no_header:
  "split_sections cur merged = (e, p) \<Longrightarrow> x \<in> set e \<union> set p \<Longrightarrow> \<not> is_header x"
proof (induction merged arbitrary: cur e p)
  case Nil
  then show ?case by simp
next
  case (Cons line rest)
  show ?case
  proof (cases "is_header line")
    case True
    then have "split_sections cur (line # rest) = split_sections Exp rest
        \<or> split_sections cur (line # rest) = split_sections Proj rest
        \<or> split_sections cur (line # rest) = split_sections NoSection rest"
      unfolding is_header_def by auto
    with Cons show ?thesis by metis
  next
    case False
    obtain e' p' where r: "split_sections cur rest = (e', p')" by (cases "split_sections cur rest")
    from False r Cons.prems(1) have "set e \<union> set p \<subseteq> insert line (set e' \<union> set p')"
      by (auto simp: is_header_def split: section.splits)
    with Cons.prems(2) have "x = line \<or> x \<in> set e' \<union> set p'" by auto
    then show ?thesis using False Cons.IH [OF r] by auto
  qed
qed

text \<open>
  C7 (as stated): no line that matches a section-header pattern ever appears verbatim as
  an item of either output list.  For \<open>["Skills Matrix", "Projects", "built Skills
  Matrix"]\<close> the first line matches the Other-header pattern and switches the section.
  The Section Splitter consumes that line, and repair pass 1 then splits the third line
  into \<open>built\<close> and \<open>Skills Matrix\<close>: the text of the header line is an item of the
  projects output all the same.
\<close>

theorem header_text_in_projects_output:
  "OTHER_HEADERS (str ''Skills Matrix'')
   \<and> is_header (str ''Skills Matrix'')
   \<and> split_and_merge (map str [''Skills Matrix'', ''Projects'', ''built Skills Matrix''])
       = Inr ([], map str [''built'', ''Skills Matrix''])"
  by code_simp

text \<open>
  C7 (amended): the Section Splitter emits no header line: for every merged list and every
  starting bucket, no item of either list it returns matches a section-header pattern.  In
  the engine, the experience output is the first of the two lists the Section Splitter
  returns on the merge pass's result, and the projects output is the three repair passes
  applied to the second; so no item of the experience output, and no item of the projects
  list that enters the repair passes, matches a section-header pattern.  The repair passes
  split and join items afterwards without testing for headers.
\<close>

theorem header_exclusion_before_repairs:
  assumes "split_and_merge lines = Inr (e, p)"
  shows "(\<forall>x \<in> set (fst (split_sections cur m)) \<union> set (snd (split_sections cur m)).
            \<not> is_header x)
    \<and> (\<exists>sec merged praw.
          merge_pass (NoSection, []) lines = Inr (sec, merged)
          \<and> split_sections NoSection merged = (e, praw)
          \<and> p = post_pass3 (post_pass2 (post_pass1 praw))
          \<and> (\<forall>x \<in> set e. \<not> is_header x)
          \<and> (\<forall>x \<in> set praw. \<not> is_header x))"
proof -
  have g: "\<forall>x \<in> set (fst (split_sections cur m)) \<union> set (snd (split_sections cur m)).
      \<not> is_header x"
    using split_sections_no_header [of cur m] by (metis prod.collapse)
  from assms obtain sec merged where mp: "merge_pass (NoSection, []) lines = Inr (sec, merged)"
    by (auto simp: split_and_merge_def split: sum.splits)
  obtain e' praw where sp: "split_sections NoSection merged = (e', praw)"
    by (cases "split_sections NoSection merged")
  from assms mp sp have e: "e = e'" and p: "p = post_pass3 (post_pass2 (post_pass1 praw))"
    by (simp_all add: split_and_merge_def)
  have "\<forall>x \<in> set e' \<union> set praw. \<not> is_header x"
    using split_sections_no_header [OF sp] by blast
  with e p mp sp g show ?thesis by blast
qed

theorem header_exclusion_before_repairs_witness:
  "split_and_merge (map str [''Work Experience at sea'', ''Deck Manager'', ''Projects'',
       ''Harbour Atlas'']) = Inr ([str ''Deck Manager''], [str ''Harbour Atlas''])
   \<and> merge_pass (NoSection, []) (map str [''Work Experience at sea'', ''Deck Manager'',
       ''Projects'', ''Harbour Atlas''])
       = Inr (Proj, map str [''Work Experience at sea'', ''Deck Manager'', ''Projects'',
           ''Harbour Atlas''])
   \<and> split_sections NoSection (map str [''Work Experience at sea'', ''Deck Manager'',
       ''Projects'', ''Harbour Atlas'']) = ([str ''Deck Manager''], [str ''Harbour Atlas''])
   \<and> is_header (str ''Work Experience at sea'') \<and> is_header (str ''Projects'')
   \<and> \<not> is_header (str ''Deck Manager'') \<and> \<not> is_header (str ''Harbour Atlas'')"
proof -
  let ?L = "map str [''Work Experience at sea'', ''Deck Manager'', ''Projects'',
       ''Harbour Atlas'']"
  have e: "split_and_merge ?L = Inr ([str ''Deck Manager''], [str ''Harbour Atlas''])"
    by code_simp
  have mp: "merge_pass (NoSection, []) ?L = Inr (Proj, ?L)"
    by code_simp
  have sp: "split_sections NoSection ?L = ([str ''Deck Manager''], [str ''Harbour Atlas''])"
    by code_simp
  have h: "is_header (str ''Work Experience at sea'') \<and> is_header (str ''Projects'')"
    by code_simp
  from header_exclusion_before_repairs [OF e, of NoSection ?L]
  have "\<forall>x \<in> set (fst (split_sections NoSection ?L)) \<union> set (snd (split_sections NoSection ?L)).
      \<not> is_header x"
    by blast
  then have "\<not> is_header (str ''Deck Manager'') \<and> \<not> is_header (str ''Harbour Atlas'')"
    unfolding sp by simp
  with e mp sp h show ?thesis by blast
qed

section \<open>The title test against its reference definition\<close>

lemma count_words_filter:
  "count_words ws (a, b) =
     (a + length (filter titleish_word (filter (\<lambda>w. \<not> small_word w) ws)),
      b + length (filter (\<lambda>w. \<not> small_word w) ws))"
  by (induction ws arbitrary: a b) simp_all

lemma ratio_rat: "0 < b \<Longrightarrow> ((of_nat a / of_nat b :: rat) \<ge> 6 / 10) \<longleftrightarrow> 6 * b \<le> 10 * a"
proof -
  assume b: "0 < b"
  have "((of_nat a / of_nat b :: rat) \<ge> 6 / 10) \<longleftrightarrow> (6 * of_nat b :: rat) \<le> 10 * of_nat a"
    using b by (simp add: field_simps)
  also have "\<dots> \<longleftrightarrow> (of_nat (6 * b) :: rat) \<le> of_nat (10 * a)"
    by simp
  also have "\<dots> \<longleftrightarrow> 6 * b \<le> 10 * a"
    by (simp only: of_nat_le_iff)
  finally show ?thesis .
qed

text \<open>
  C8 (as stated): the title test equals the reference definition in which a word is
  significant when it is not in the stoplist.  For \<open>The, Cat dog\<close> the reference counts
  three significant words, two of them title-cased, and answers true; the source strips
  \<open>The,\<close> to \<open>the\<close>, drops it as a small word, finds one title-cased word of two and
  answers false.
\<close>

theorem spec_stoplist_literal_differs:
  "spec_looksLikeProjectTitle (str ''The, Cat dog'')
   \<and> \<not> looks_like_project_title (str ''The, Cat dog'')"
  by code_simp

text \<open>
  C8 (amended): the title test equals the reference definition for every line, when a word
  counts as a stoplist word after it is lower-cased and stripped of the characters
  \<open>.,:;()[]\<close> at both ends: false when the trimmed length is below 2 or above 120, false
  when the trimmed line ends in one of \<open>. ! ? : ; ,\<close>, false when the word count is
  outside 1..10, and otherwise true exactly when there is a significant word and the
  fraction of significant words that are title-cased is at least 0.6.
\<close>

theorem looks_like_project_title_refines_reference:
  "looks_like_project_title line = ref_looksLikeProjectTitle line"
proof -
  define t where "t = strip line"
  define ws where "ws = filter (\<lambda>w. w \<noteq> []) (re_split_ws t)"
  define sg where "sg = filter (\<lambda>w. \<not> small_word w) ws"
  define cased where "cased = filter titleish_word sg"
  have cw: "count_words ws (0, 0) = (length cased, length sg)"
    by (simp add: count_words_filter cased_def sg_def)
  have code: "looks_like_project_title line \<longleftrightarrow>
      \<not> (length t < 2 \<or> length t > 120) \<and> \<not> endswith_any t SENTENCE_END
      \<and> 1 \<le> length ws \<and> length ws \<le> 10 \<and> sg \<noteq> [] \<and> 6 * length sg \<le> 10 * length cased"
    unfolding looks_like_project_title_def looks_like_project_title_chk_def Let_def
      t_def [symmetric] ws_def [symmetric] cw
    by (auto simp: ratio_ge_06_def)
  have frac: "sg \<noteq> [] \<Longrightarrow>
      ((of_nat (length cased) / of_nat (length sg) :: rat) \<ge> 6 / 10)
        \<longleftrightarrow> 6 * length sg \<le> 10 * length cased"
    by (rule ratio_rat) simp
  have ref: "ref_looksLikeProjectTitle line \<longleftrightarrow>
      \<not> (length t < 2 \<or> length t > 120) \<and> \<not> endswith_any t SENTENCE_END
      \<and> \<not> (length ws < 1 \<or> length ws > 10) \<and> sg \<noteq> []
      \<and> (of_nat (length cased) / of_nat (length sg) :: rat) \<ge> 6 / 10"
    unfolding ref_looksLikeProjectTitle_def Let_def
      t_def [symmetric] ws_def [symmetric] sg_def [symmetric] cased_def [symmetric]
    by (simp only: split: if_splits) blast
  have wsr: "\<not> (length ws < 1 \<or> length ws > 10) \<longleftrightarrow> 1 \<le> length ws \<and> length ws \<le> 10"
    by arith
  show ?thesis
    unfolding code ref wsr using frac by blast
qed

theorem looks_like_project_title_refines_reference_witness:
  "looks_like_project_title (str ''Real-Time Monitor'')
   \<and> ref_looksLikeProjectTitle (str ''Real-Time Monitor'')
   \<and> \<not> looks_like_project_title (str ''The, Cat dog'')
   \<and> \<not> ref_looksLikeProjectTitle (str ''The, Cat dog'')"
proof -
  have e: "looks_like_project_title (str ''Real-Time Monitor'')
      \<and> \<not> looks_like_project_title (str ''The, Cat dog'')"
    by code_simp
  show ?thesis
    using e looks_like_project_title_refines_reference [of "str ''Real-Time Monitor''"]
      looks_like_project_title_refines_reference [of "str ''The, Cat dog''"]
    by blast
qed

section \<open>A continuation right after the Experience header\<close>

lemma not_word_space: "\<not> is_word 32"
  by (simp add: is_word_def is_AZ_def is_az_def is_digit_def)

lemma isspace_newline: "isspace 10"
  by (simp add: isspace_def)

lemma header_match_extend:
  assumes hm: "header_match kws h" and ne: "h \<noteq> []"
    and hd: "\<not> isspace (hd h)" and lst: "\<not> isspace (last h)" and nl: "no_newline text"
  shows "header_match kws (h @ 32 # text)"
proof -
  let ?c = "h @ 32 # text"
  have dh: "dropWhile isspace h = h" using ne hd by (cases h) simp_all
  have dc: "dropWhile isspace ?c = ?c" using ne hd by (cases h) simp_all
  from hm dh obtain kw where kw: "kw \<in> set kws" and len: "length kw \<le> length h"
    and low: "lower (take (length kw) h) = kw" and bnd: "word_bnd h (length kw)"
    and dol: "dollar no_newline (drop (length kw) h)"
    by (auto simp: header_match_def Let_def)
  let ?n = "length kw"
  have 1: "?n \<le> length ?c" using len by simp
  have 2: "lower (take ?n ?c) = kw" using len low by simp
  have 3: "word_bnd ?c ?n"
  proof (cases "?n < length h")
    case True
    then have lt: "?n - 1 < length h" by arith
    have "?c ! ?n = h ! ?n" "?c ! (?n - 1) = h ! (?n - 1)"
      using True lt by (simp_all add: nth_append)
    with True bnd show ?thesis by (simp add: word_bnd_def)
  next
    case False
    with len have e: "?n = length h" by simp
    with ne have pos: "0 < ?n" by simp
    from bnd e pos have "is_word (h ! (?n - 1))" by (simp add: word_bnd_def)
    moreover have "?c ! (?n - 1) = h ! (?n - 1)" using e pos by (simp add: nth_append)
    moreover have "?c ! ?n = 32" using e by (simp add: nth_append)
    ultimately show ?thesis using e pos not_word_space by (simp add: word_bnd_def)
  qed
  have nlh: "no_newline (drop ?n h)"
  proof (cases "drop ?n h = []")
    case True
    then show ?thesis by (simp add: no_newline_def)
  next
    case False
    then have "last (drop ?n h) = last h" by simp
    with lst isspace_newline have "last (drop ?n h) \<noteq> 10" by metis
    with dol show ?thesis by (auto simp: dollar_def)
  qed
  have "drop ?n ?c = drop ?n h @ 32 # text" using len by simp
  with nlh nl have 4: "dollar no_newline (drop ?n ?c)"
    by (simp add: dollar_def no_newline_def)
  show ?thesis
    unfolding header_match_def Let_def dc using kw 1 2 3 4 by blast
qed

lemma split_sections_cong:
  "(\<And>c. split_sections c r1 = split_sections c r2)
   \<Longrightarrow> split_sections c (pre @ r1) = split_sections c (pre @ r2)"
  by (induction pre arbitrary: c) simp_all

lemma exp_kws_nonempty: "\<not> EXPERIENCE_HEADERS []"
  by (simp add: EXPERIENCE_HEADERS_def header_match_def str_def)

text \<open>
  C10: let the Experience header line have just been read, so that it is the last merged
  entry, and let the next line be a cleaned line (non-empty once stripped, no newline in
  it) that is neither a header nor a bullet nor job-header-like.  Then the merge pass joins
  the line onto the header entry with a space, the joined entry still matches the
  Experience-header pattern, and the Section Splitter treats the joined entry exactly as it
  treats the header alone: it switches to the experience bucket and emits nothing, so the
  line reaches neither output list although the active section was Experience.
\<close>

theorem experience_header_absorbs_continuation:
  assumes hdr: "EXPERIENCE_HEADERS (strip raw_h)"
    and tne: "strip raw \<noteq> []"
    and nh: "\<not> is_header (strip raw)"
    and nb: "\<not> is_bullet (strip raw)"
    and nj: "\<not> looks_like_job_header (strip raw)"
    and nl: "no_newline (strip raw)"
  shows "merge_line (sec, merged) raw_h = Inr (Exp, merged @ [strip raw_h])
    \<and> merge_line (Exp, merged @ [strip raw_h]) raw
        = Inr (Exp, merged @ [strip raw_h @ str '' '' @ strip raw])
    \<and> EXPERIENCE_HEADERS (strip raw_h @ str '' '' @ strip raw)
    \<and> split_sections cur (merged @ (strip raw_h @ str '' '' @ strip raw) # more)
        = split_sections cur (merged @ strip raw_h # more)"
proof -
  let ?h = "strip raw_h" and ?t = "strip raw"
  have hne: "?h \<noteq> []" using hdr exp_kws_nonempty by auto
  then have rh: "raw_h \<noteq> []" by auto
  have rt: "raw \<noteq> []" using tne by auto
  have a: "merge_line (sec, merged) raw_h = Inr (Exp, merged @ [?h])"
    using hdr hne rh by (simp add: merge_line_def Let_def)
  have rs: "rstrip ?h = ?h" using hne strip_last by (simp add: rstrip_id)
  have b: "merge_line (Exp, merged @ [?h]) raw = Inr (Exp, merged @ [?h @ str '' '' @ ?t])"
    using tne rt nh nb nj rs
    by (simp add: merge_line_def Let_def is_header_def upd_last_def)
  have c: "EXPERIENCE_HEADERS (?h @ str '' '' @ ?t)"
    using hdr header_match_extend [OF _ hne strip_hd [OF hne] strip_last [OF hne] nl]
    by (simp add: EXPERIENCE_HEADERS_def str_space)
  have "\<And>c. split_sections c ((?h @ str '' '' @ ?t) # more) = split_sections c (?h # more)"
    using hdr c by simp
  then have d: "split_sections cur (merged @ (?h @ str '' '' @ ?t) # more)
      = split_sections cur (merged @ ?h # more)"
    by (rule split_sections_cong)
  from a b c d show ?thesis by blast
qed

theorem experience_header_absorbs_continuation_witness:
  "EXPERIENCE_HEADERS (strip (str ''Experience''))
   \<and> strip (str ''some text here'') \<noteq> []
   \<and> \<not> is_header (strip (str ''some text here''))
   \<and> \<not> is_bullet (strip (str ''some text here''))
   \<and> \<not> looks_like_job_header (strip (str ''some text here''))
   \<and> no_newline (strip (str ''some text here''))
   \<and> merge_line (NoSection, []) (str ''Experience'') = Inr (Exp, [] @ [strip (str ''Experience'')])
   \<and> merge_line (Exp, [] @ [strip (str ''Experience'')]) (str ''some text here'')
       = Inr (Exp, [] @ [strip (str ''Experience'') @ str '' '' @ strip (str ''some text here'')])
   \<and> EXPERIENCE_HEADERS (strip (str ''Experience'') @ str '' '' @ strip (str ''some text here''))
   \<and> split_sections NoSection
         ([] @ (strip (str ''Experience'') @ str '' '' @ strip (str ''some text here'')) # [])
       = split_sections NoSection ([] @ strip (str ''Experience'') # [])
   \<and> split_and_merge (map str [''Experience'', ''some text here'']) = Inr ([], [])"
proof -
  have h1: "EXPERIENCE_HEADERS (strip (str ''Experience''))" by code_simp
  have h2: "strip (str ''some text here'') \<noteq> []" by code_simp
  have h3: "\<not> is_header (strip (str ''some text here''))" by code_simp
  have h4: "\<not> is_bullet (strip (str ''some text here''))" by code_simp
  have h5: "\<not> looks_like_job_header (strip (str ''some text here''))" by code_simp
  have h6: "no_newline (strip (str ''some text here''))" by code_simp
  have e: "split_and_merge (map str [''Experience'', ''some text here'']) = Inr ([], [])"
    by code_simp
  show ?thesis
    using experience_header_absorbs_continuation [OF h1 h2 h3 h4 h5 h6, of NoSection "[]" NoSection "[]"]
      h1 h2 h3 h4 h5 h6 e
    by blast
qed

section \<open>Bullets\<close>

lemma bullet_first:
  assumes "is_bullet t"
  shows "t \<noteq> [] \<and> \<not> isspace (hd t) \<and> \<not> is_az (lower_char (hd t))"
proof (cases t)
  case Nil
  with assms show ?thesis by (simp add: is_bullet_def BULLET_RE_def NUM_BULLET_RE_def)
next
  case (Cons c cs)
  have "is_bullet_glyph c \<or> c = 40 \<or> is_digit c"
  proof (rule ccontr)
    assume n: "\<not> (is_bullet_glyph c \<or> c = 40 \<or> is_digit c)"
    then have "\<not> BULLET_RE t" using Cons by (auto simp: BULLET_RE_def split: list.splits)
    moreover have "takeWhile is_digit t = []" using n Cons by simp
    then have "\<not> NUM_BULLET_RE t" using n Cons by (simp add: NUM_BULLET_RE_def)
    ultimately show False using assms by (simp add: is_bullet_def)
  qed
  then have "\<not> isspace c \<and> \<not> is_az (lower_char c)"
    by (auto simp: is_bullet_glyph_def is_digit_def isspace_def is_az_def lower_char_def is_AZ_def)
  with Cons show ?thesis by simp
qed

lemma bullet_not_header_match:
  assumes b: "is_bullet t" and k: "\<forall>kw \<in> set kws. kw \<noteq> [] \<and> is_az (hd kw)"
  shows "\<not> header_match kws t"
proof
  assume hm: "header_match kws t"
  from bullet_first [OF b] have ne: "t \<noteq> []" and sp: "\<not> isspace (hd t)"
    and az: "\<not> is_az (lower_char (hd t))" by simp_all
  have dt: "dropWhile isspace t = t" using ne sp by (cases t) simp_all
  from hm dt obtain kw where kw: "kw \<in> set kws" and low: "lower (take (length kw) t) = kw"
    by (auto simp: header_match_def Let_def)
  from k kw have kne: "kw \<noteq> []" and kaz: "is_az (hd kw)" by simp_all
  have "hd (lower (take (length kw) t)) = lower_char (hd t)"
    using ne kne by (cases t; cases kw) (simp_all add: lower_def)
  with low kaz az show False by simp
qed

lemma header_kws:
  "\<forall>kw \<in> set (map str [''experience'', ''work experience'', ''professional experience'']). kw \<noteq> [] \<and> is_az (hd kw)"
  "\<forall>kw \<in> set (map str [''projects'', ''project experience'', ''personal projects'']). kw \<noteq> [] \<and> is_az (hd kw)"
  "\<forall>kw \<in> set (map str [''education'', ''skills'', ''certifications'', ''certification'',
       ''awards'', ''award'', ''publications'', ''publication'', ''summary'', ''contact'',
       ''achievements'', ''achievement'']). kw \<noteq> [] \<and> is_az (hd kw)"
  by (simp_all add: str_def is_az_def)

lemma bullet_not_header:
  "is_bullet t \<Longrightarrow> \<not> EXPERIENCE_HEADERS t \<and> \<not> PROJECTS_HEADERS t \<and> \<not> OTHER_HEADERS t"
  unfolding EXPERIENCE_HEADERS_def PROJECTS_HEADERS_def OTHER_HEADERS_def
  using bullet_not_header_match header_kws by blast

lemma with_title_nonempty: "with_title r \<noteq> []"
  by (cases r) (simp add: with_title_def)

lemma bullet_line_appends_in_merge_pass:
  assumes "is_bullet (strip raw)"
  shows "\<exists>items. items \<noteq> [] \<and> merge_line (sec, merged) raw = Inr (sec, merged @ items)"
proof -
  let ?t = "strip raw"
  have ne: "?t \<noteq> []" using bullet_first [OF assms] by simp
  then have rne: "raw \<noteq> []" by (auto simp: strip_def rstrip_by_def lstrip_by_def)
  note nh = bullet_not_header [OF assms]
  show ?thesis
  proof (cases "sec = Proj")
    case True
    then have "merge_line (sec, merged) raw
        = Inr (sec, merged @ with_title (split_trailing_title_if_any ?t))"
      using assms ne rne nh by (simp add: merge_line_def Let_def)
    then show ?thesis using with_title_nonempty by blast
  next
    case False
    then have "merge_line (sec, merged) raw = Inr (sec, merged @ [?t])"
      using assms ne rne nh by (simp add: merge_line_def Let_def)
    then show ?thesis by blast
  qed
qed

text \<open>
  C5: a bullet line always begins a new item and is never concatenated onto a preceding
  item, at any stage.  The merge pass keeps this (\<open>bullet_line_appends_in_merge_pass\<close>),
  and repair pass 2 breaks it.  For \<open>["Projects", "Pqr", "- Xa", "Ybc", long_title]\<close>, with
  \<open>long_title\<close> a two-word title of 119 characters, the merge pass grows the bullet into
  \<open>- Xa Ybc\<close> followed by the long title, repair pass 1 splits the long title off again
  (every shorter prefix leaves a candidate of more than 120 characters), and repair pass 2
  then sees the two short titles \<open>Pqr\<close> and \<open>- Xa Ybc\<close> and joins the bullet onto the item
  before it.
\<close>

theorem bullet_merged_into_previous_title:
  "is_bullet (str ''- Xa'')
   \<and> length (str long_title) = 119
   \<and> projects (map str [''Projects'', ''Pqr'', ''- Xa'', ''Ybc'', long_title])
       = Inr (map str [''Pqr - Xa Ybc'', long_title])"
  by code_simp

end
